theory Spec2Isabelle
  imports Complex_Main "HOL-Library.AList"
begin

section \<open>Data model of \<^verbatim>\<open>mcp/shared/async_operations.py\<close>\<close>

text \<open>
  Modelled from the spec: the literal type \<^verbatim>\<open>AsyncOperationStatus\<close> lives in
  \<^verbatim>\<open>mcp.types\<close>, which is not part of the sources at hand. Section 4.3 of the
  specification lists its seven values; the source compares a status with the strings
  \<^verbatim>\<open>"submitted"\<close>, \<^verbatim>\<open>"working"\<close>, \<^verbatim>\<open>"input_required"\<close>, \<^verbatim>\<open>"completed"\<close>, \<^verbatim>\<open>"failed"\<close>,
  \<^verbatim>\<open>"canceled"\<close> and \<^verbatim>\<open>"unknown"\<close>.
\<close>

datatype AsyncOperationStatus =
  Submitted | Working | InputRequired | Completed | Failed | Canceled | Unknown

text \<open>
  The dataclass \<^verbatim>\<open>ServerAsyncOperation\<close>. The tool arguments (\<^verbatim>\<open>dict[str, Any]\<close>) and
  the tool result (\<^verbatim>\<open>types.CallToolResult\<close>) are opaque to the manager, hence type
  parameters. Timestamps are Python floats read from \<^verbatim>\<open>time.time()\<close>; they are modelled
  as real numbers, so rounding of \<^verbatim>\<open>resolved_at + keep_alive\<close> is not represented.
  The optional fields default to \<^verbatim>\<open>None\<close>.
\<close>

record ('a, 'r) ServerAsyncOperation =
  token :: string
  tool_name :: string
  arguments :: 'a
  status :: AsyncOperationStatus
  created_at :: real
  keep_alive :: int
  resolved_at :: "real option"
  session_id :: "string option"
  result :: "'r option"
  error :: "string option"

text \<open>
  The property \<^verbatim>\<open>is_expired\<close> reads the clock; the reading is the parameter \<open>now\<close>.
  The first test is \<^verbatim>\<open>if not self.resolved_at\<close>, a truth-value test: it succeeds for
  \<^verbatim>\<open>None\<close> and also for the float \<^verbatim>\<open>0.0\<close>. This is the value the property
  returns; which reading of a running clock it takes, and when the addition raises
  instead, is spelled out with the scan of the dictionary further down.
\<close>

definition is_expired :: "real \<Rightarrow> ('a, 'r) ServerAsyncOperation \<Rightarrow> bool" where
  "is_expired now operation =
     (case resolved_at operation of
        None \<Rightarrow> False
      | Some t \<Rightarrow>
          if t = 0 then False
          else if status operation \<in> {Completed, Failed, Canceled}
            then now > t + real_of_int (keep_alive operation)
          else False)"

definition is_terminal :: "('a, 'r) ServerAsyncOperation \<Rightarrow> bool" where
  "is_terminal operation \<longleftrightarrow> status operation \<in> {Completed, Failed, Canceled, Unknown}"

section \<open>The operations dictionary\<close>

text \<open>
  \<^verbatim>\<open>self._operations\<close> is a Python \<^verbatim>\<open>dict\<close> from token to record. A dict keeps its
  entries in insertion order, and \<^verbatim>\<open>get_session_operations\<close> exposes that order, so the
  dictionary is an association list. Its keys are pairwise distinct; assigning to a key
  that is present replaces the value in place, assigning to a new key appends the entry
  (\<^const>\<open>AList.update\<close>), and \<^verbatim>\<open>pop(token, None)\<close> drops the entry if there is one
  (\<^const>\<open>AList.delete\<close>). The records are objects owned by the dictionary: a method that
  fetches a record and assigns to one of its fields changes the entry stored under
  that token, which the model writes as an update of the entry.
\<close>

type_synonym ('a, 'r) operations = "(string \<times> ('a, 'r) ServerAsyncOperation) list"

definition priv_get_operation ::
  "string \<Rightarrow> ('a, 'r) operations \<Rightarrow> ('a, 'r) ServerAsyncOperation option" where
  "priv_get_operation tok ops = map_of ops tok"

definition priv_set_operation ::
  "string \<Rightarrow> ('a, 'r) ServerAsyncOperation \<Rightarrow> ('a, 'r) operations \<Rightarrow> ('a, 'r) operations" where
  "priv_set_operation tok operation ops = AList.update tok operation ops"

definition priv_remove_operation ::
  "string \<Rightarrow> ('a, 'r) operations \<Rightarrow> ('a, 'r) ServerAsyncOperation option \<times> ('a, 'r) operations" where
  "priv_remove_operation tok ops = (map_of ops tok, AList.delete tok ops)"

definition get_operation ::
  "string \<Rightarrow> ('a, 'r) operations \<Rightarrow> ('a, 'r) ServerAsyncOperation option" where
  "get_operation tok ops = priv_get_operation tok ops"

text \<open>\<^verbatim>\<open>ServerAsyncOperationManager.remove_operation\<close> pops the token itself.\<close>

definition remove_operation :: "string \<Rightarrow> ('a, 'r) operations \<Rightarrow> bool \<times> ('a, 'r) operations" where
  "remove_operation tok ops = (map_of ops tok \<noteq> None, AList.delete tok ops)"

section \<open>Creation and the transition methods\<close>

text \<open>
  Every method takes the dictionary and returns its Python return value together with
  the dictionary after the call. The token generator is a callable handed to the
  manager (by default a random one); \<open>gen\<close> is its behaviour at this call.
  \<open>now\<close> is the value \<^verbatim>\<open>time.time()\<close> returns during the call.
\<close>

definition create_operation ::
  "(string option \<Rightarrow> string) \<Rightarrow> real \<Rightarrow> string \<Rightarrow> 'a \<Rightarrow> int \<Rightarrow> string option \<Rightarrow>
     ('a, 'r) operations \<Rightarrow> ('a, 'r) ServerAsyncOperation \<times> ('a, 'r) operations" where
  "create_operation gen now tname args ka sid ops =
     (let tok = gen sid;
          operation = \<lparr>token = tok, tool_name = tname, arguments = args, status = Submitted,
                       created_at = now, keep_alive = ka, resolved_at = None,
                       session_id = sid, result = None, error = None\<rparr>
      in (operation, priv_set_operation tok operation ops))"

definition mark_working :: "string \<Rightarrow> ('a, 'r) operations \<Rightarrow> bool \<times> ('a, 'r) operations" where
  "mark_working tok ops =
     (case priv_get_operation tok ops of
        None \<Rightarrow> (False, ops)
      | Some operation \<Rightarrow>
          if status operation \<noteq> Submitted then (False, ops)
          else (True, AList.update tok (operation\<lparr>status := Working\<rparr>) ops))"

definition complete_operation ::
  "string \<Rightarrow> 'r \<Rightarrow> real \<Rightarrow> ('a, 'r) operations \<Rightarrow> bool \<times> ('a, 'r) operations" where
  "complete_operation tok res now ops =
     (case priv_get_operation tok ops of
        None \<Rightarrow> (False, ops)
      | Some operation \<Rightarrow>
          if status operation \<notin> {Submitted, Working} then (False, ops)
          else (True, AList.update tok
                  (operation\<lparr>status := Completed, result := Some res, resolved_at := Some now\<rparr>) ops))"

definition fail_operation ::
  "string \<Rightarrow> string \<Rightarrow> real \<Rightarrow> ('a, 'r) operations \<Rightarrow> bool \<times> ('a, 'r) operations" where
  "fail_operation tok err now ops =
     (case priv_get_operation tok ops of
        None \<Rightarrow> (False, ops)
      | Some operation \<Rightarrow>
          if status operation \<notin> {Submitted, Working} then (False, ops)
          else (True, AList.update tok
                  (operation\<lparr>status := Failed, error := Some err, resolved_at := Some now\<rparr>) ops))"

definition get_operation_result ::
  "string \<Rightarrow> ('a, 'r) operations \<Rightarrow> 'r option \<times> ('a, 'r) operations" where
  "get_operation_result tok ops =
     (case priv_get_operation tok ops of
        None \<Rightarrow> (None, ops)
      | Some operation \<Rightarrow>
          if status operation \<noteq> Completed then (None, ops) else (result operation, ops))"

definition cancel_operation :: "string \<Rightarrow> ('a, 'r) operations \<Rightarrow> bool \<times> ('a, 'r) operations" where
  "cancel_operation tok ops =
     (case priv_get_operation tok ops of
        None \<Rightarrow> (False, ops)
      | Some operation \<Rightarrow>
          if status operation \<notin> {Submitted, Working} then (False, ops)
          else (True, AList.update tok (operation\<lparr>status := Canceled\<rparr>) ops))"

definition mark_input_required ::
  "string \<Rightarrow> ('a, 'r) operations \<Rightarrow> bool \<times> ('a, 'r) operations" where
  "mark_input_required tok ops =
     (case priv_get_operation tok ops of
        None \<Rightarrow> (False, ops)
      | Some operation \<Rightarrow>
          if status operation \<notin> {Submitted, Working} then (False, ops)
          else (True, AList.update tok (operation\<lparr>status := InputRequired\<rparr>) ops))"

definition mark_input_completed ::
  "string \<Rightarrow> ('a, 'r) operations \<Rightarrow> bool \<times> ('a, 'r) operations" where
  "mark_input_completed tok ops =
     (case priv_get_operation tok ops of
        None \<Rightarrow> (False, ops)
      | Some operation \<Rightarrow>
          if status operation \<noteq> InputRequired then (False, ops)
          else (True, AList.update tok (operation\<lparr>status := Working\<rparr>) ops))"

section \<open>Purging expired records\<close>

text \<open>
  \<^verbatim>\<open>is_expired\<close> is a property that calls \<^verbatim>\<open>time.time()\<close> itself, and only after both
  of its guards have passed. A scan of the dictionary therefore reads the clock once
  for every record that passes them, and the readings of one scan need not agree. The
  clock of a call is the sequence \<open>clock 0\<close>, \<open>clock 1\<close>, \<dots> of the values that
  \<^verbatim>\<open>time.time()\<close> returns during the call, and \<open>n\<close> counts the readings taken so far.

  The addition \<^verbatim>\<open>self.resolved_at + self.keep_alive\<close> converts the integer to a float
  first. Python raises \<^verbatim>\<open>OverflowError\<close> when the integer rounds to a magnitude of
  \<open>2 ^ 1024\<close> or more, that is, from \<open>2 ^ 1024 - 2 ^ 970\<close> upwards. Apart from that the
  arithmetic is the one of \<^const>\<open>is_expired\<close>, which gives the value of the property for
  the reading it takes.
\<close>

datatype exception = KeyError string | OverflowError

definition float_convertible :: "int \<Rightarrow> bool" where
  "float_convertible k \<longleftrightarrow> \<bar>k\<bar> < 2 ^ 1024 - 2 ^ 970"

definition is_expired_reading ::
  "(nat \<Rightarrow> real) \<Rightarrow> nat \<Rightarrow> ('a, 'r) ServerAsyncOperation \<Rightarrow> exception + bool \<times> nat" where
  "is_expired_reading clock n operation =
     (case resolved_at operation of
        None \<Rightarrow> Inr (False, n)
      | Some t \<Rightarrow>
          if t = 0 then Inr (False, n)
          else if status operation \<in> {Completed, Failed, Canceled}
            then (if float_convertible (keep_alive operation)
                  then Inr (clock n > t + real_of_int (keep_alive operation), Suc n)
                  else Inl OverflowError)
          else Inr (False, n))"

text \<open>
  The comprehension \<^verbatim>\<open>[token for token, operation in self._operations.items() if
  operation.is_expired]\<close>: the entries in dictionary order, each record asked in turn.
  An exception raised by one of the evaluations leaves the comprehension.
\<close>

fun expired_tokens ::
  "(nat \<Rightarrow> real) \<Rightarrow> nat \<Rightarrow> ('a, 'r) operations \<Rightarrow> exception + string list" where
  "expired_tokens clock n [] = Inr []"
| "expired_tokens clock n ((tok, operation) # rest) =
     (case is_expired_reading clock n operation of
        Inl e \<Rightarrow> Inl e
      | Inr (expired, n') \<Rightarrow>
          (case expired_tokens clock n' rest of
             Inl e \<Rightarrow> Inl e
           | Inr toks \<Rightarrow> Inr (if expired then tok # toks else toks)))"

text \<open>
  \<^verbatim>\<open>BaseOperationManager.cleanup_expired\<close>: the loop pops every collected token. The
  method returns the count or raises; either way the second component is the
  dictionary it leaves behind. An exception in the comprehension comes before any
  removal.
\<close>

fun remove_all :: "string list \<Rightarrow> ('a, 'r) operations \<Rightarrow> ('a, 'r) operations" where
  "remove_all [] ops = ops"
| "remove_all (tok # toks) ops = remove_all toks (snd (priv_remove_operation tok ops))"

definition cleanup_expired ::
  "(nat \<Rightarrow> real) \<Rightarrow> ('a, 'r) operations \<Rightarrow> (exception + nat) \<times> ('a, 'r) operations" where
  "cleanup_expired clock ops =
     (case expired_tokens clock 0 ops of
        Inl e \<Rightarrow> (Inl e, ops)
      | Inr expired \<Rightarrow> (Inr (length expired), remove_all expired ops))"

text \<open>
  \<^verbatim>\<open>ServerAsyncOperationManager.cleanup_expired_operations\<close> uses
  \<^verbatim>\<open>del self._operations[token]\<close>, which raises \<^verbatim>\<open>KeyError\<close> for a key that is absent;
  the deletions made before that stay.
\<close>

fun del_all ::
  "string list \<Rightarrow> ('a, 'r) operations \<Rightarrow> exception option \<times> ('a, 'r) operations" where
  "del_all [] ops = (None, ops)"
| "del_all (tok # toks) ops =
     (if map_of ops tok = None then (Some (KeyError tok), ops)
      else del_all toks (AList.delete tok ops))"

definition cleanup_expired_operations ::
  "(nat \<Rightarrow> real) \<Rightarrow> ('a, 'r) operations \<Rightarrow> (exception + nat) \<times> ('a, 'r) operations" where
  "cleanup_expired_operations clock ops =
     (case expired_tokens clock 0 ops of
        Inl e \<Rightarrow> (Inl e, ops)
      | Inr expired \<Rightarrow>
          (case del_all expired ops of
             (Some e, ops') \<Rightarrow> (Inl e, ops')
           | (None, ops') \<Rightarrow> (Inr (length expired), ops')))"

text \<open>
  For stating what a scan does: whether evaluating \<^verbatim>\<open>is_expired\<close> on a record reaches
  the call of \<^verbatim>\<open>time.time()\<close>, and which reading the record stored under a token gets,
  namely the one numbered by the records before it that reach the call.
\<close>

definition reads_clock :: "('a, 'r) ServerAsyncOperation \<Rightarrow> bool" where
  "reads_clock operation \<longleftrightarrow>
     (case resolved_at operation of
        None \<Rightarrow> False
      | Some t \<Rightarrow> t \<noteq> 0 \<and> status operation \<in> {Completed, Failed, Canceled})"

definition reading_for :: "('a, 'r) operations \<Rightarrow> string \<Rightarrow> nat" where
  "reading_for ops tok =
     length (filter (\<lambda>(k, operation). reads_clock operation)
               (takeWhile (\<lambda>(k, operation). k \<noteq> tok) ops))"

section \<open>Session-scoped methods\<close>

definition get_session_operations ::
  "string \<Rightarrow> ('a, 'r) operations \<Rightarrow> ('a, 'r) ServerAsyncOperation list" where
  "get_session_operations sid ops =
     filter (\<lambda>operation. session_id operation = Some sid) (map snd ops)"

text \<open>
  \<^verbatim>\<open>cancel_session_operations\<close> walks the list that \<^verbatim>\<open>get_session_operations\<close> returns.
  That list holds the record objects of the dictionary themselves, in dictionary
  order, so assigning \<^verbatim>\<open>op.status\<close> changes the entry the record came from. The walk is
  therefore written over the entries: an entry of another session is passed over (the
  comprehension dropped it), a terminal one is skipped by the loop body, any other one
  is set to \<^verbatim>\<open>"canceled"\<close> and counted.
\<close>

fun cancel_session_loop ::
  "string \<Rightarrow> ('a, 'r) operations \<Rightarrow> nat \<Rightarrow> nat \<times> ('a, 'r) operations" where
  "cancel_session_loop sid [] canceled_count = (canceled_count, [])"
| "cancel_session_loop sid ((tok, operation) # rest) canceled_count =
     (if session_id operation = Some sid then
        (if \<not> is_terminal operation then
           (case cancel_session_loop sid rest (canceled_count + 1) of
              (n, rest') \<Rightarrow> (n, (tok, operation\<lparr>status := Canceled\<rparr>) # rest'))
         else
           (case cancel_session_loop sid rest canceled_count of
              (n, rest') \<Rightarrow> (n, (tok, operation) # rest')))
      else
        (case cancel_session_loop sid rest canceled_count of
           (n, rest') \<Rightarrow> (n, (tok, operation) # rest')))"

definition cancel_session_operations ::
  "string \<Rightarrow> ('a, 'r) operations \<Rightarrow> nat \<times> ('a, 'r) operations" where
  "cancel_session_operations sid ops = cancel_session_loop sid ops 0"

section \<open>Histories of calls\<close>

text \<open>
  A manager starts with an empty dictionary and changes only through calls of its
  public methods. A call names the method and its arguments, together with what the
  token generator and the clock deliver during the call. The read-only methods
  (\<^verbatim>\<open>get_operation\<close>, \<^verbatim>\<open>get_operation_result\<close>, \<^verbatim>\<open>get_session_operations\<close>) leave the
  dictionary as it is and are not listed.
\<close>

datatype ('a, 'r) call =
    CreateOperation "string option \<Rightarrow> string" real string 'a int "string option"
  | MarkWorking string
  | MarkInputRequired string
  | MarkInputCompleted string
  | CompleteOperation string 'r real
  | FailOperation string string real
  | CancelOperation string
  | RemoveOperation string
  | CleanupExpired "nat \<Rightarrow> real"
  | CleanupExpiredOperations "nat \<Rightarrow> real"
  | CancelSessionOperations string

text \<open>
  The dictionary a call leaves behind, whether the call returns or raises: the manager
  stays in use after an exception that its caller catches.
\<close>

fun exec :: "('a, 'r) call \<Rightarrow> ('a, 'r) operations \<Rightarrow> ('a, 'r) operations" where
  "exec (CreateOperation gen now tname args ka sid) ops =
     snd (create_operation gen now tname args ka sid ops)"
| "exec (MarkWorking tok) ops = snd (mark_working tok ops)"
| "exec (MarkInputRequired tok) ops = snd (mark_input_required tok ops)"
| "exec (MarkInputCompleted tok) ops = snd (mark_input_completed tok ops)"
| "exec (CompleteOperation tok res now) ops = snd (complete_operation tok res now ops)"
| "exec (FailOperation tok err now) ops = snd (fail_operation tok err now ops)"
| "exec (CancelOperation tok) ops = snd (cancel_operation tok ops)"
| "exec (RemoveOperation tok) ops = snd (remove_operation tok ops)"
| "exec (CleanupExpired clock) ops = snd (cleanup_expired clock ops)"
| "exec (CleanupExpiredOperations clock) ops = snd (cleanup_expired_operations clock ops)"
| "exec (CancelSessionOperations sid) ops = snd (cancel_session_operations sid ops)"

fun run :: "('a, 'r) call list \<Rightarrow> ('a, 'r) operations \<Rightarrow> ('a, 'r) operations" where
  "run [] ops = ops"
| "run (c # cs) ops = run cs (exec c ops)"

text \<open>
  The calls that take the record stored under a token out of the dictionary on
  purpose: explicit removal, and a creation whose generated token is that token.
\<close>

fun discards :: "string \<Rightarrow> ('a, 'r) call \<Rightarrow> bool" where
  "discards tok (RemoveOperation tok') \<longleftrightarrow> tok' = tok"
| "discards tok (CreateOperation gen now tname args ka sid) \<longleftrightarrow> gen sid = tok"
| "discards tok _ \<longleftrightarrow> False"

section \<open>Well-formed dictionaries\<close>

text \<open>
  What every record built and changed by the manager satisfies, by status: a record
  that is not resolved carries no payload and no resolution time; a completed one has
  its result, a failed one its error, both with a resolution time; a canceled one has
  none of the three. The status \<^verbatim>\<open>"unknown"\<close> is assigned by no method.
\<close>

definition consistent :: "('a, 'r) ServerAsyncOperation \<Rightarrow> bool" where
  "consistent operation \<longleftrightarrow>
     (case status operation of
        Completed \<Rightarrow> resolved_at operation \<noteq> None \<and> result operation \<noteq> None \<and> error operation = None
      | Failed \<Rightarrow> resolved_at operation \<noteq> None \<and> result operation = None \<and> error operation \<noteq> None
      | Unknown \<Rightarrow> False
      | _ \<Rightarrow> resolved_at operation = None \<and> result operation = None \<and> error operation = None)"

text \<open>Keys are unique, as in any dict, and every record sits under its own token.\<close>

definition keyed :: "('a, 'r) operations \<Rightarrow> bool" where
  "keyed ops \<longleftrightarrow> distinct (map fst ops) \<and> (\<forall>(tok, operation) \<in> set ops. token operation = tok)"

definition well_formed :: "('a, 'r) operations \<Rightarrow> bool" where
  "well_formed ops \<longleftrightarrow> keyed ops \<and> (\<forall>(tok, operation) \<in> set ops. consistent operation)"

section \<open>Example dictionaries\<close>

text \<open>
  The scenario of the specification: the tool \<^verbatim>\<open>"sum"\<close> with arguments
  \<^verbatim>\<open>{a: 1, b: 2}\<close>, a keep-alive of five seconds and the result \<^verbatim>\<open>{total: 3}\<close>.
\<close>

definition completed_example :: "((string \<times> int) list, (string \<times> int) list) operations" where
  "completed_example =
     [(''tok-1'', \<lparr>token = ''tok-1'', tool_name = ''sum'', arguments = [(''a'', 1), (''b'', 2)],
                   status = Completed, created_at = 100, keep_alive = 5, resolved_at = Some 101,
                   session_id = Some ''s1'', result = Some [(''total'', 3)], error = None\<rparr>)]"

definition working_example :: "((string \<times> int) list, (string \<times> int) list) operations" where
  "working_example =
     [(''tok-1'', \<lparr>token = ''tok-1'', tool_name = ''sum'', arguments = [(''a'', 1), (''b'', 2)],
                   status = Working, created_at = 100, keep_alive = 5, resolved_at = None,
                   session_id = Some ''s1'', result = None, error = None\<rparr>)]"

text \<open>A token generator that delivers the given token, whatever the session.\<close>

definition fixed_token :: "string \<Rightarrow> string option \<Rightarrow> string" where
  "fixed_token tok sid = tok"

definition submitted_example :: "((string \<times> int) list, (string \<times> int) list) operations" where
  "submitted_example =
     [(''tok-1'', \<lparr>token = ''tok-1'', tool_name = ''sum'', arguments = [(''a'', 1), (''b'', 2)],
                   status = Submitted, created_at = 100, keep_alive = 5, resolved_at = None,
                   session_id = Some ''s1'', result = None, error = None\<rparr>)]"

definition canceled_example :: "((string \<times> int) list, (string \<times> int) list) operations" where
  "canceled_example =
     [(''tok-1'', \<lparr>token = ''tok-1'', tool_name = ''sum'', arguments = [(''a'', 1), (''b'', 2)],
                   status = Canceled, created_at = 100, keep_alive = 5, resolved_at = None,
                   session_id = Some ''s1'', result = None, error = None\<rparr>)]"

definition create_sum :: "((string \<times> int) list, (string \<times> int) list) call" where
  "create_sum =
     CreateOperation (fixed_token ''tok-1'') 100 ''sum'' [(''a'', 1), (''b'', 2)] 5 (Some ''s1'')"

definition scenario :: "((string \<times> int) list, (string \<times> int) list) call list" where
  "scenario = [create_sum, MarkWorking ''tok-1'', CompleteOperation ''tok-1'' [(''total'', 3)] 101]"

text \<open>A completed record whose resolution time is the float \<^verbatim>\<open>0.0\<close>.\<close>

definition epoch_record :: "((string \<times> int) list, (string \<times> int) list) ServerAsyncOperation" where
  "epoch_record =
     \<lparr>token = ''tok-1'', tool_name = ''sum'', arguments = [(''a'', 1), (''b'', 2)],
      status = Completed, created_at = 0, keep_alive = 5, resolved_at = Some 0,
      session_id = None, result = Some [(''total'', 3)], error = None\<rparr>"

text \<open>
  Three records at time \<open>107\<close>: the first resolved at \<open>101\<close> with keep-alive \<open>5\<close>
  (expired), the second resolved at \<open>105\<close> (not yet expired), the third still working
  and owned by another session.
\<close>

definition mixed_example :: "((string \<times> int) list, (string \<times> int) list) operations" where
  "mixed_example =
     [(''tok-1'', \<lparr>token = ''tok-1'', tool_name = ''sum'', arguments = [(''a'', 1), (''b'', 2)],
                   status = Completed, created_at = 100, keep_alive = 5, resolved_at = Some 101,
                   session_id = Some ''s1'', result = Some [(''total'', 3)], error = None\<rparr>),
      (''tok-2'', \<lparr>token = ''tok-2'', tool_name = ''sum'', arguments = [(''a'', 2), (''b'', 2)],
                   status = Failed, created_at = 100, keep_alive = 5, resolved_at = Some 105,
                   session_id = Some ''s1'', result = None, error = Some ''boom''\<rparr>),
      (''tok-3'', \<lparr>token = ''tok-3'', tool_name = ''sum'', arguments = [(''a'', 3), (''b'', 2)],
                   status = Working, created_at = 100, keep_alive = 5, resolved_at = None,
                   session_id = Some ''s2'', result = None, error = None\<rparr>),
      (''tok-4'', \<lparr>token = ''tok-4'', tool_name = ''sum'', arguments = [(''a'', 4), (''b'', 2)],
                   status = InputRequired, created_at = 100, keep_alive = 5, resolved_at = None,
                   session_id = Some ''s1'', result = None, error = None\<rparr>)]"

text \<open>A clock that stands still during a call, and one that advances by a second per reading.\<close>

definition steady :: "real \<Rightarrow> nat \<Rightarrow> real" where
  "steady now i = now"

definition ticking :: "real \<Rightarrow> nat \<Rightarrow> real" where
  "ticking start i = start + real i"

definition later_calls :: "((string \<times> int) list, (string \<times> int) list) call list" where
  "later_calls =
     [CleanupExpired (steady 1000), MarkWorking ''tok-1'',
      CompleteOperation ''tok-1'' [(''total'', 3)] 2000,
      CancelSessionOperations ''s1'', CleanupExpiredOperations (ticking 100000)]"

text \<open>Two completed records with the same deadline, \<open>103 + 5\<close>.\<close>

definition two_due_example :: "((string \<times> int) list, (string \<times> int) list) operations" where
  "two_due_example =
     [(''tok-1'', \<lparr>token = ''tok-1'', tool_name = ''sum'', arguments = [(''a'', 1), (''b'', 2)],
                   status = Completed, created_at = 100, keep_alive = 5, resolved_at = Some 103,
                   session_id = Some ''s1'', result = Some [(''total'', 3)], error = None\<rparr>),
      (''tok-2'', \<lparr>token = ''tok-2'', tool_name = ''sum'', arguments = [(''a'', 2), (''b'', 2)],
                   status = Completed, created_at = 100, keep_alive = 5, resolved_at = Some 103,
                   session_id = Some ''s1'', result = Some [(''total'', 4)], error = None\<rparr>)]"

text \<open>A failed record whose keep-alive is too large for a float, after a working one.\<close>

definition huge_keep_alive_example ::
  "((string \<times> int) list, (string \<times> int) list) operations" where
  "huge_keep_alive_example =
     [(''tok-1'', \<lparr>token = ''tok-1'', tool_name = ''sum'', arguments = [(''a'', 1), (''b'', 2)],
                   status = Working, created_at = 100, keep_alive = 5, resolved_at = None,
                   session_id = Some ''s1'', result = None, error = None\<rparr>),
      (''tok-2'', \<lparr>token = ''tok-2'', tool_name = ''sum'', arguments = [(''a'', 2), (''b'', 2)],
                   status = Failed, created_at = 100, keep_alive = 10 ^ 400, resolved_at = Some 101,
                   session_id = Some ''s1'', result = None, error = Some ''boom''\<rparr>)]"

text \<open>
  A dictionary put together by hand: a failed record that nevertheless holds a result,
  and a working record that holds one too.
\<close>

definition stray_result_example :: "((string \<times> int) list, (string \<times> int) list) operations" where
  "stray_result_example =
     [(''tok-1'', \<lparr>token = ''tok-1'', tool_name = ''sum'', arguments = [(''a'', 1), (''b'', 2)],
                   status = Failed, created_at = 100, keep_alive = 5, resolved_at = Some 101,
                   session_id = Some ''s1'', result = Some [(''total'', 3)], error = Some ''boom''\<rparr>),
      (''tok-2'', \<lparr>token = ''tok-2'', tool_name = ''sum'', arguments = [(''a'', 2), (''b'', 2)],
                   status = Working, created_at = 100, keep_alive = 5, resolved_at = None,
                   session_id = Some ''s1'', result = Some [(''total'', 4)], error = None\<rparr>)]"

section \<open>Facts about the dictionary operations\<close>

lemma remove_all_filter:
  "remove_all toks ops = filter (\<lambda>(tok, operation). tok \<notin> set toks) ops"
proof (induction toks arbitrary: ops)
  case Nil
  show ?case by (simp add: case_prod_unfold)
next
  case (Cons tok toks)
  have "remove_all (tok # toks) ops =
        filter (\<lambda>(tok', operation). tok' \<notin> set toks) (AList.delete tok ops)"
    by (simp add: Cons.IH priv_remove_operation_def)
  also have "\<dots> = filter (\<lambda>(tok', operation). tok' \<notin> set (tok # toks)) ops"
    unfolding AList.delete_eq filter_filter by (rule filter_cong) auto
  finally show ?case .
qed

lemma is_expired_reading_eq:
  "is_expired_reading clock n operation =
     (if reads_clock operation
      then (if float_convertible (keep_alive operation)
            then Inr (is_expired (clock n) operation, Suc n) else Inl OverflowError)
      else Inr (False, n))"
  by (simp add: is_expired_reading_def reads_clock_def is_expired_def split: option.splits)

lemma expired_reads_clock: "is_expired now operation \<Longrightarrow> reads_clock operation"
  by (auto simp: reads_clock_def is_expired_def split: option.splits if_splits)

lemma unresolved_not_expired: "resolved_at operation = None \<Longrightarrow> \<not> is_expired now operation"
  by (simp add: is_expired_def)

lemma small_float_convertible: "\<bar>k\<bar> < 2 ^ 31 \<Longrightarrow> float_convertible k"
proof -
  have "(2::int) ^ 31 \<le> 2 ^ 1024 - 2 ^ 970" by simp
  then show "\<bar>k\<bar> < 2 ^ 31 \<Longrightarrow> float_convertible k"
    unfolding float_convertible_def by linarith
qed

lemma reading_for_head: "reading_for ((tok, operation) # rest) tok = 0"
  by (simp add: reading_for_def)

lemma reading_for_tail:
  "k \<noteq> tok \<Longrightarrow>
   reading_for ((k, operation) # rest) tok =
     (if reads_clock operation then Suc (reading_for rest tok) else reading_for rest tok)"
  by (simp add: reading_for_def)

lemma expired_tokens_closed:
  assumes "distinct (map fst ops)"
    and "\<forall>(tok, operation) \<in> set ops. reads_clock operation \<longrightarrow> float_convertible (keep_alive operation)"
  shows "expired_tokens clock n ops =
         Inr (map fst (filter (\<lambda>(tok, operation).
                is_expired (clock (n + reading_for ops tok)) operation) ops))"
  using assms
proof (induction ops arbitrary: n)
  case Nil
  show ?case by simp
next
  case (Cons entry rest)
  obtain k v where entry: "entry = (k, v)" by (cases entry)
  define n' where "n' = (if reads_clock v then Suc n else n)"
  from Cons.prems(2) entry have "reads_clock v \<Longrightarrow> float_convertible (keep_alive v)" by simp
  then have head: "is_expired_reading clock n v = Inr (is_expired (clock n) v, n')"
    using expired_reads_clock [of "clock n" v] by (auto simp: is_expired_reading_eq n'_def)
  from Cons.prems have "expired_tokens clock n' rest =
      Inr (map fst (filter (\<lambda>(tok, operation).
             is_expired (clock (n' + reading_for rest tok)) operation) rest))"
    by (intro Cons.IH) simp_all
  also have "filter (\<lambda>(tok, operation). is_expired (clock (n' + reading_for rest tok)) operation) rest =
      filter (\<lambda>(tok, operation). is_expired (clock (n + reading_for (entry # rest) tok)) operation) rest"
  proof (rule filter_cong [OF refl])
    fix x assume x: "x \<in> set rest"
    obtain tok operation where pair: "x = (tok, operation)" by (cases x)
    from x pair Cons.prems(1) entry have "k \<noteq> tok" by force
    then show "(case x of (tok, operation) \<Rightarrow>
                  is_expired (clock (n' + reading_for rest tok)) operation) =
               (case x of (tok, operation) \<Rightarrow>
                  is_expired (clock (n + reading_for (entry # rest) tok)) operation)"
      by (simp add: pair entry reading_for_tail n'_def)
  qed
  finally show ?case
    using head by (simp add: entry reading_for_head)
qed

lemma expired_tokens_overflow:
  assumes "(tok, operation) \<in> set ops" and "reads_clock operation"
    and "\<not> float_convertible (keep_alive operation)"
  shows "expired_tokens clock n ops = Inl OverflowError"
  using assms
proof (induction ops arbitrary: n)
  case Nil
  then show ?case by simp
next
  case (Cons entry rest)
  obtain k v where entry: "entry = (k, v)" by (cases entry)
  show ?case
  proof (cases "reads_clock v \<and> \<not> float_convertible (keep_alive v)")
    case True
    then show ?thesis by (simp add: entry is_expired_reading_eq)
  next
    case False
    with Cons.prems entry have "(tok, operation) \<in> set rest" by auto
    with Cons.IH Cons.prems have "expired_tokens clock m rest = Inl OverflowError" for m
      by simp
    then show ?thesis
      by (simp add: entry is_expired_reading_eq)
  qed
qed

lemma expired_tokens_sound:
  assumes "expired_tokens clock n ops = Inr toks" and "tok \<in> set toks"
  shows "\<exists>operation. (tok, operation) \<in> set ops \<and> reads_clock operation"
  using assms
proof (induction ops arbitrary: n toks)
  case Nil
  then show ?case by simp
next
  case (Cons entry rest)
  obtain k v where entry: "entry = (k, v)" by (cases entry)
  from Cons.prems(1) entry obtain expired n' toks' where
    head: "is_expired_reading clock n v = Inr (expired, n')"
    and tail: "expired_tokens clock n' rest = Inr toks'"
    and toks: "toks = (if expired then k # toks' else toks')"
    by (auto split: sum.splits prod.splits)
  show ?case
  proof (cases "tok \<in> set toks'")
    case True
    from Cons.IH [OF tail True] show ?thesis by auto
  next
    case False
    with Cons.prems(2) toks have "expired" and "tok = k" by (auto split: if_splits)
    with head have "reads_clock v"
      by (auto simp: is_expired_reading_eq split: if_splits)
    with \<open>tok = k\<close> entry show ?thesis by auto
  qed
qed

lemma map_of_filter_key:
  "map_of (filter (\<lambda>(k, v). P k) ops) k = (if P k then map_of ops k else None)"
  by (induction ops) auto

lemma del_all_filter:
  assumes "distinct toks" and "set toks \<subseteq> fst ` set ops"
  shows "del_all toks ops = (None, filter (\<lambda>(tok, operation). tok \<notin> set toks) ops)"
  using assms
proof (induction toks arbitrary: ops)
  case Nil
  show ?case by (simp add: case_prod_unfold)
next
  case (Cons tok toks)
  from Cons.prems have present: "map_of ops tok \<noteq> None"
    by (simp add: map_of_eq_None_iff)
  from Cons.prems have "set toks \<subseteq> fst ` set (AList.delete tok ops)"
    by (force simp: AList.delete_eq image_iff subset_iff)
  with Cons.prems have "del_all toks (AList.delete tok ops) =
      (None, filter (\<lambda>(tok', operation). tok' \<notin> set toks) (AList.delete tok ops))"
    by (intro Cons.IH) simp_all
  also have "filter (\<lambda>(tok', operation). tok' \<notin> set toks) (AList.delete tok ops) =
             filter (\<lambda>(tok', operation). tok' \<notin> set (tok # toks)) ops"
    unfolding AList.delete_eq filter_filter by (rule filter_cong) auto
  finally show ?case using present by simp
qed

lemma del_all_other:
  "tok \<notin> set toks \<Longrightarrow> map_of (snd (del_all toks ops)) tok = map_of ops tok"
  by (induction toks arbitrary: ops) (auto simp: delete_conv')

lemma cancel_session_loop_eq:
  "cancel_session_loop sid ops n =
     (n + length (filter (\<lambda>(tok, operation). session_id operation = Some sid \<and> \<not> is_terminal operation) ops),
      map (\<lambda>(tok, operation).
             if session_id operation = Some sid \<and> \<not> is_terminal operation
             then (tok, operation\<lparr>status := Canceled\<rparr>) else (tok, operation)) ops)"
  by (induction sid ops n rule: cancel_session_loop.induct) simp_all

lemma set_update_subset: "set (AList.update k v al) \<subseteq> insert (k, v) (set al)"
  by (induction al) auto

lemma keyed_update:
  "keyed ops \<Longrightarrow> token operation = tok \<Longrightarrow> keyed (AList.update tok operation ops)"
  unfolding keyed_def using set_update_subset [of tok operation ops]
  by (auto simp: distinct_update)

lemma well_formed_update:
  assumes "well_formed ops" and "token operation = tok" and "consistent operation"
  shows "well_formed (AList.update tok operation ops)"
  using assms set_update_subset [of tok operation ops]
  unfolding well_formed_def by (auto simp: keyed_update)

lemma well_formed_filter: "well_formed ops \<Longrightarrow> well_formed (filter P ops)"
  unfolding well_formed_def keyed_def by (auto simp: distinct_map_filter)

lemma well_formed_delete: "well_formed ops \<Longrightarrow> well_formed (AList.delete tok ops)"
  unfolding AList.delete_eq by (rule well_formed_filter)

lemma well_formed_lookup:
  assumes "well_formed ops" and "map_of ops tok = Some operation"
  shows "token operation = tok" and "consistent operation"
  using assms map_of_SomeD [OF assms(2)] unfolding well_formed_def keyed_def by auto

lemma well_formed_distinct: "well_formed ops \<Longrightarrow> distinct (map fst ops)"
  by (simp add: well_formed_def keyed_def)

lemma well_formed_create:
  "well_formed ops \<Longrightarrow> well_formed (snd (create_operation gen now tname args ka sid ops))"
  by (simp add: create_operation_def priv_set_operation_def Let_def well_formed_update consistent_def)

lemma well_formed_mark_working: "well_formed ops \<Longrightarrow> well_formed (snd (mark_working tok ops))"
  by (auto simp: mark_working_def priv_get_operation_def consistent_def
           split: option.splits dest: well_formed_lookup intro!: well_formed_update)

lemma well_formed_mark_input_required:
  "well_formed ops \<Longrightarrow> well_formed (snd (mark_input_required tok ops))"
  by (auto simp: mark_input_required_def priv_get_operation_def consistent_def
           split: option.splits dest: well_formed_lookup intro!: well_formed_update)

lemma well_formed_mark_input_completed:
  "well_formed ops \<Longrightarrow> well_formed (snd (mark_input_completed tok ops))"
  by (auto simp: mark_input_completed_def priv_get_operation_def consistent_def
           split: option.splits dest: well_formed_lookup intro!: well_formed_update)

lemma well_formed_complete:
  "well_formed ops \<Longrightarrow> well_formed (snd (complete_operation tok res now ops))"
  by (auto simp: complete_operation_def priv_get_operation_def consistent_def
           split: option.splits dest: well_formed_lookup intro!: well_formed_update)

lemma well_formed_fail:
  "well_formed ops \<Longrightarrow> well_formed (snd (fail_operation tok err now ops))"
  by (auto simp: fail_operation_def priv_get_operation_def consistent_def
           split: option.splits dest: well_formed_lookup intro!: well_formed_update)

lemma well_formed_cancel:
  "well_formed ops \<Longrightarrow> well_formed (snd (cancel_operation tok ops))"
  by (auto simp: cancel_operation_def priv_get_operation_def consistent_def
           split: option.splits dest: well_formed_lookup intro!: well_formed_update)

lemma well_formed_remove: "well_formed ops \<Longrightarrow> well_formed (snd (remove_operation tok ops))"
  by (simp add: remove_operation_def well_formed_delete)

lemma well_formed_cleanup_expired:
  "well_formed ops \<Longrightarrow> well_formed (snd (cleanup_expired clock ops))"
  by (simp add: cleanup_expired_def remove_all_filter well_formed_filter split: sum.splits)

lemma well_formed_del_all: "well_formed ops \<Longrightarrow> well_formed (snd (del_all toks ops))"
  by (induction toks arbitrary: ops) (simp_all add: well_formed_delete)

lemma snd_cleanup_expired_operations:
  "snd (cleanup_expired_operations clock ops) =
     (case expired_tokens clock 0 ops of Inl e \<Rightarrow> ops | Inr toks \<Rightarrow> snd (del_all toks ops))"
  by (simp add: cleanup_expired_operations_def split: sum.splits prod.splits option.splits)

lemma well_formed_cleanup_expired_operations:
  "well_formed ops \<Longrightarrow> well_formed (snd (cleanup_expired_operations clock ops))"
  unfolding snd_cleanup_expired_operations
  by (simp add: well_formed_del_all split: sum.splits)

lemma well_formed_cancel_session:
  assumes "well_formed ops"
  shows "well_formed (snd (cancel_session_operations sid ops))"
proof -
  let ?f = "\<lambda>(tok, operation).
             if session_id operation = Some sid \<and> \<not> is_terminal operation
             then (tok, operation\<lparr>status := Canceled\<rparr>) else (tok, operation)"
  have keys: "map fst (map ?f ops) = map fst ops"
    by (induction ops) (auto)
  have "consistent (operation\<lparr>status := Canceled\<rparr>)"
    if "consistent operation" and "\<not> is_terminal operation" for operation :: "('a, 'b) ServerAsyncOperation"
    using that by (cases "status operation") (simp_all add: consistent_def is_terminal_def)
  with assms have "\<forall>(tok, operation) \<in> set (map ?f ops). token operation = tok \<and> consistent operation"
    unfolding well_formed_def keyed_def by (auto split: if_splits)
  with assms keys show ?thesis
    unfolding well_formed_def keyed_def cancel_session_operations_def cancel_session_loop_eq
    by (auto simp del: map_map)
qed

lemma exec_well_formed: "well_formed ops \<Longrightarrow> well_formed (exec c ops)"
  by (cases c)
     (simp_all add: well_formed_create well_formed_mark_working
        well_formed_mark_input_required well_formed_mark_input_completed well_formed_complete
        well_formed_fail well_formed_cancel well_formed_remove well_formed_cleanup_expired
        well_formed_cleanup_expired_operations well_formed_cancel_session)

lemma run_well_formed: "well_formed ops \<Longrightarrow> well_formed (run cs ops)"
  by (induction cs arbitrary: ops) (simp_all add: exec_well_formed)

lemma well_formed_empty: "well_formed []"
  by (simp add: well_formed_def keyed_def)

lemma run_scenario: "run scenario [] = completed_example"
  by (simp add: scenario_def create_sum_def fixed_token_def completed_example_def
        create_operation_def Let_def priv_set_operation_def priv_get_operation_def mark_working_def
        complete_operation_def)

lemma run_reachable_well_formed: "run cs [] = ops \<Longrightarrow> well_formed ops"
  using run_well_formed [OF well_formed_empty, of cs] by auto

lemma resolved_iff_completed_or_failed:
  assumes "run cs [] = ops" and "map_of ops tok = Some operation"
  shows "resolved_at operation \<noteq> None \<longleftrightarrow> status operation \<in> {Completed, Failed}"
proof -
  from assms(1) have "well_formed ops" by (rule run_reachable_well_formed)
  then have "consistent operation" using assms(2) by (rule well_formed_lookup)
  then show ?thesis
    by (cases "status operation") (simp_all add: consistent_def)
qed

lemma is_expired_resolved:
  assumes "status operation \<in> {Completed, Failed, Canceled}"
    and "resolved_at operation = Some t" and "t \<noteq> 0"
  shows "is_expired now operation \<longleftrightarrow> now > t + real_of_int (keep_alive operation)"
  using assms by (simp add: is_expired_def)

lemma map_of_filter_distinct:
  assumes "distinct (map fst ops)"
  shows "map_of (filter (\<lambda>(k, v). P k v) ops) k =
         (case map_of ops k of None \<Rightarrow> None | Some v \<Rightarrow> if P k v then Some v else None)"
  using assms
proof (induction ops)
  case Nil
  show ?case by simp
next
  case (Cons entry ops)
  obtain k' v' where entry: "entry = (k', v')" by (cases entry)
  show ?case
  proof (cases "k' = k")
    case True
    with Cons.prems entry have "k \<notin> fst ` set ops" by simp
    then have "map_of (filter (\<lambda>(k, v). P k v) ops) k = None"
      by (auto simp: map_of_eq_None_iff)
    with True entry show ?thesis by simp
  next
    case False
    with Cons entry show ?thesis by simp
  qed
qed

lemma map_of_map_value:
  "map_of (map (\<lambda>(k, v). if Q v then (k, f v) else (k, v)) ops) k =
   map_option (\<lambda>v. if Q v then f v else v) (map_of ops k)"
  by (induction ops) auto

lemma canceled_not_collected:
  assumes keys: "distinct (map fst ops)"
    and found: "map_of ops tok = Some operation"
    and unresolved: "resolved_at operation = None"
    and scan: "expired_tokens clock n ops = Inr toks"
  shows "tok \<notin> set toks"
proof
  assume "tok \<in> set toks"
  from expired_tokens_sound [OF scan this]
  obtain other where other: "(tok, other) \<in> set ops" "reads_clock other" by blast
  from keys other(1) have "map_of ops tok = Some other" by (rule map_of_is_SomeI)
  with found have "other = operation" by simp
  with other(2) unresolved show False by (simp add: reads_clock_def)
qed

lemma exec_keeps_canceled:
  assumes wf: "well_formed ops"
    and found: "map_of ops tok = Some operation"
    and canceled: "status operation = Canceled"
    and unresolved: "resolved_at operation = None"
    and kept: "\<not> discards tok c"
  shows "map_of (exec c ops) tok = Some operation"
proof -
  note keys = well_formed_distinct [OF wf]
  have terminal: "is_terminal operation"
    using canceled by (simp add: is_terminal_def)
  show ?thesis
  proof (cases c)
    case (CreateOperation gen now tname args ka sid)
    with kept found show ?thesis
      by (auto simp: create_operation_def Let_def priv_set_operation_def update_conv')
  next
    case (MarkWorking tok')
    with found canceled show ?thesis
      by (auto simp: mark_working_def priv_get_operation_def update_conv' split: option.splits)
  next
    case (MarkInputRequired tok')
    with found canceled show ?thesis
      by (auto simp: mark_input_required_def priv_get_operation_def update_conv' split: option.splits)
  next
    case (MarkInputCompleted tok')
    with found canceled show ?thesis
      by (auto simp: mark_input_completed_def priv_get_operation_def update_conv' split: option.splits)
  next
    case (CompleteOperation tok' res now)
    with found canceled show ?thesis
      by (auto simp: complete_operation_def priv_get_operation_def update_conv' split: option.splits)
  next
    case (FailOperation tok' err now)
    with found canceled show ?thesis
      by (auto simp: fail_operation_def priv_get_operation_def update_conv' split: option.splits)
  next
    case (CancelOperation tok')
    with found canceled show ?thesis
      by (auto simp: cancel_operation_def priv_get_operation_def update_conv' split: option.splits)
  next
    case (RemoveOperation tok')
    with kept found show ?thesis
      by (auto simp: remove_operation_def delete_conv')
  next
    case (CleanupExpired clock)
    show ?thesis
    proof (cases "expired_tokens clock 0 ops")
      case (Inl e)
      with CleanupExpired found show ?thesis by (simp add: cleanup_expired_def)
    next
      case (Inr toks)
      from canceled_not_collected [OF keys found unresolved Inr] have "tok \<notin> set toks" .
      with CleanupExpired Inr found show ?thesis
        by (simp add: cleanup_expired_def remove_all_filter map_of_filter_key)
    qed
  next
    case (CleanupExpiredOperations clock)
    show ?thesis
    proof (cases "expired_tokens clock 0 ops")
      case (Inl e)
      with CleanupExpiredOperations found show ?thesis
        by (simp add: cleanup_expired_operations_def)
    next
      case (Inr toks)
      from canceled_not_collected [OF keys found unresolved Inr] have "tok \<notin> set toks" .
      then have "map_of (snd (del_all toks ops)) tok = map_of ops tok" by (rule del_all_other)
      with CleanupExpiredOperations Inr found show ?thesis
        by (simp add: snd_cleanup_expired_operations)
    qed
  next
    case (CancelSessionOperations sid)
    have "map_of (snd (cancel_session_operations sid ops)) tok =
        map_option (\<lambda>v. if session_id v = Some sid \<and> \<not> is_terminal v
                           then v\<lparr>status := Canceled\<rparr> else v) (map_of ops tok)"
      unfolding cancel_session_operations_def cancel_session_loop_eq snd_conv
      by (rule map_of_map_value)
    with found terminal CancelSessionOperations show ?thesis by simp
  qed
qed

lemma run_keeps_canceled:
  assumes "well_formed ops"
    and "map_of ops tok = Some operation"
    and "status operation = Canceled"
    and "resolved_at operation = None"
    and "\<forall>c \<in> set cs. \<not> discards tok c"
  shows "well_formed (run cs ops) \<and> map_of (run cs ops) tok = Some operation"
  using assms
proof (induction cs arbitrary: ops)
  case Nil
  then show ?case by simp
next
  case (Cons c cs)
  from Cons.prems(5) have now: "\<not> discards tok c" and rest: "\<forall>c \<in> set cs. \<not> discards tok c"
    by simp_all
  have wf1: "well_formed (exec c ops)"
    using Cons.prems(1) by (rule exec_well_formed)
  have found1: "map_of (exec c ops) tok = Some operation"
    by (rule exec_keeps_canceled
          [OF Cons.prems(1) Cons.prems(2) Cons.prems(3) Cons.prems(4) now])
  from Cons.IH [OF wf1 found1 Cons.prems(3) Cons.prems(4) rest] show ?case by simp
qed

lemma update_same_key:
  assumes "distinct (map fst al)" and "(k, v') \<in> set (AList.update k v al)"
  shows "v' = v"
proof -
  from assms(1) have "distinct (map fst (AList.update k v al))" by (rule distinct_update)
  from this assms(2) have "map_of (AList.update k v al) k = Some v'" by (rule map_of_is_SomeI)
  then show ?thesis by (simp add: update_conv')
qed

lemma cleanup_expired_overflow:
  assumes "(tok, operation) \<in> set ops" and "reads_clock operation"
    and "\<not> float_convertible (keep_alive operation)"
  shows "cleanup_expired clock ops = (Inl OverflowError, ops)"
    and "cleanup_expired_operations clock ops = (Inl OverflowError, ops)"
  using expired_tokens_overflow [OF assms, of clock 0]
  by (simp_all add: cleanup_expired_def cleanup_expired_operations_def)

lemma cleanup_expired_at_reading:
  assumes "distinct (map fst ops)"
    and "\<forall>(tok, operation) \<in> set ops.
           reads_clock operation \<longrightarrow> float_convertible (keep_alive operation)"
  shows "snd (cleanup_expired clock ops) =
           filter (\<lambda>(tok, operation).
                     \<not> is_expired (clock (reading_for ops tok)) operation) ops \<and>
         fst (cleanup_expired clock ops) =
           Inr (length (filter (\<lambda>(tok, operation).
                          is_expired (clock (reading_for ops tok)) operation) ops)) \<and>
         (\<forall>tok. get_operation tok (snd (cleanup_expired clock ops)) =
            (case get_operation tok ops of
               None \<Rightarrow> None
             | Some operation \<Rightarrow>
                 if is_expired (clock (reading_for ops tok)) operation then None
                 else Some operation)) \<and>
         cleanup_expired_operations clock ops = cleanup_expired clock ops \<and>
         ((\<forall>i. clock i = now) \<longrightarrow>
            snd (cleanup_expired clock ops) =
              filter (\<lambda>(tok, operation). \<not> is_expired now operation) ops \<and>
            fst (cleanup_expired clock ops) =
              Inr (length (filter (\<lambda>(tok, operation). is_expired now operation) ops)))"
proof -
  let ?due = "\<lambda>(tok, operation). is_expired (clock (reading_for ops tok)) operation"
  have scan: "expired_tokens clock 0 ops = Inr (map fst (filter ?due ops))"
    using expired_tokens_closed [OF assms, of clock 0] by simp
  have member: "tok \<in> set (map fst (filter ?due ops)) \<longleftrightarrow> ?due (tok, operation)"
    if "(tok, operation) \<in> set ops" for tok operation
  proof
    assume "tok \<in> set (map fst (filter ?due ops))"
    then obtain other where other: "(tok, other) \<in> set ops" "?due (tok, other)" by auto
    from assms(1) other(1) that have "other = operation"
      by (meson eq_key_imp_eq_value)
    with other(2) show "?due (tok, operation)" by simp
  next
    assume "?due (tok, operation)"
    with that show "tok \<in> set (map fst (filter ?due ops))" by force
  qed
  have "filter (\<lambda>(tok, operation). tok \<notin> set (map fst (filter ?due ops))) ops =
        filter (\<lambda>(tok, operation). \<not> is_expired (clock (reading_for ops tok)) operation) ops"
    by (rule filter_cong [OF refl]) (use member in auto)
  then have kept: "snd (cleanup_expired clock ops) =
      filter (\<lambda>(tok, operation). \<not> is_expired (clock (reading_for ops tok)) operation) ops"
    by (simp add: cleanup_expired_def scan remove_all_filter)
  have count: "fst (cleanup_expired clock ops) = Inr (length (filter ?due ops))"
    by (simp add: cleanup_expired_def scan)
  have lookup: "get_operation tok (snd (cleanup_expired clock ops)) =
      (case get_operation tok ops of
         None \<Rightarrow> None
       | Some operation \<Rightarrow>
           if is_expired (clock (reading_for ops tok)) operation then None
           else Some operation)" for tok
    unfolding kept get_operation_def priv_get_operation_def
    by (simp add: map_of_filter_distinct [OF assms(1)] split: option.splits)
  have "distinct (map fst (filter ?due ops))"
    using assms(1) by (rule distinct_map_filter)
  moreover have "set (map fst (filter ?due ops)) \<subseteq> fst ` set ops" by auto
  ultimately have "del_all (map fst (filter ?due ops)) ops =
      (None, filter (\<lambda>(tok, operation). tok \<notin> set (map fst (filter ?due ops))) ops)"
    by (rule del_all_filter)
  then have same: "cleanup_expired_operations clock ops = cleanup_expired clock ops"
    by (simp add: cleanup_expired_operations_def cleanup_expired_def scan remove_all_filter)
  have steady: "snd (cleanup_expired clock ops) =
        filter (\<lambda>(tok, operation). \<not> is_expired now operation) ops \<and>
      fst (cleanup_expired clock ops) =
        Inr (length (filter (\<lambda>(tok, operation). is_expired now operation) ops))"
    if "\<forall>i. clock i = now"
    using that by (simp add: kept count)
  from kept count lookup same steady show ?thesis by blast
qed

lemma two_due_same_deadline:
  "is_expired now (snd (hd two_due_example)) = is_expired now (snd (last two_due_example))"
  by (simp add: two_due_example_def is_expired_def)

section \<open>The claims\<close>

text \<open>
  C1. For each of the six transition methods and every token: when the token is absent
  from the dictionary, or the status of its record is outside the source statuses the
  method accepts, the call returns \<^verbatim>\<open>False\<close> and hands back the dictionary it was
  given, entry for entry. No method has an exceptional outcome: each returns a pair.
\<close>

theorem rejected_transition_changes_nothing:
  "(map_option status (get_operation tok ops) \<notin> {Some Submitted} \<longrightarrow>
      mark_working tok ops = (False, ops)) \<and>
   (map_option status (get_operation tok ops) \<notin> {Some Submitted, Some Working} \<longrightarrow>
      mark_input_required tok ops = (False, ops)) \<and>
   (map_option status (get_operation tok ops) \<notin> {Some InputRequired} \<longrightarrow>
      mark_input_completed tok ops = (False, ops)) \<and>
   (map_option status (get_operation tok ops) \<notin> {Some Submitted, Some Working} \<longrightarrow>
      complete_operation tok res now ops = (False, ops)) \<and>
   (map_option status (get_operation tok ops) \<notin> {Some Submitted, Some Working} \<longrightarrow>
      fail_operation tok err now ops = (False, ops)) \<and>
   (map_option status (get_operation tok ops) \<notin> {Some Submitted, Some Working} \<longrightarrow>
      cancel_operation tok ops = (False, ops))"
  by (cases "map_of ops tok")
     (simp_all add: get_operation_def priv_get_operation_def mark_working_def
        mark_input_required_def mark_input_completed_def complete_operation_def
        fail_operation_def cancel_operation_def)

theorem rejected_transition_changes_nothing_witness:
  "map_option status (get_operation ''tok-1'' completed_example) = Some Completed \<and>
   map_option status (get_operation ''nope'' completed_example) = None \<and>
   mark_working ''tok-1'' completed_example = (False, completed_example) \<and>
   mark_input_required ''tok-1'' completed_example = (False, completed_example) \<and>
   mark_input_completed ''tok-1'' completed_example = (False, completed_example) \<and>
   complete_operation ''tok-1'' [(''total'', 4)] 200 completed_example = (False, completed_example) \<and>
   fail_operation ''tok-1'' ''boom'' 200 completed_example = (False, completed_example) \<and>
   cancel_operation ''tok-1'' completed_example = (False, completed_example) \<and>
   mark_working ''nope'' completed_example = (False, completed_example) \<and>
   cancel_operation ''nope'' completed_example = (False, completed_example)"
proof -
  have known: "map_option status (get_operation ''tok-1'' completed_example) = Some Completed"
    by (simp add: get_operation_def priv_get_operation_def completed_example_def)
  have unknown: "map_option status (get_operation ''nope'' completed_example) = None"
    by (simp add: get_operation_def priv_get_operation_def completed_example_def)
  note at_known = rejected_transition_changes_nothing
      [of "''tok-1''" completed_example "[(''total'', 4)]" 200 "''boom''", unfolded known]
  note at_unknown = rejected_transition_changes_nothing
      [of "''nope''" completed_example "[(''total'', 4)]" 200 "''boom''", unfolded unknown]
  from at_known at_unknown show ?thesis by (simp add: known unknown)
qed

text \<open>
  C2 says that \<^verbatim>\<open>resolved_at\<close> is set exactly when the record has gone through a
  terminal transition. The code of \<^verbatim>\<open>cancel_operation\<close> assigns the status only: on a
  freshly created operation the call succeeds, the status is canceled, and
  \<^verbatim>\<open>resolved_at\<close> is still \<^verbatim>\<open>None\<close>. What holds of the code is lemma
  \<open>resolved_iff_completed_or_failed\<close>: the resolution time is set exactly in the
  completed and the failed records.
\<close>

theorem cancel_leaves_resolved_at_unset:
  "run [create_sum] [] = submitted_example \<and>
   cancel_operation ''tok-1'' submitted_example = (True, canceled_example) \<and>
   map_option status (get_operation ''tok-1'' canceled_example) = Some Canceled \<and>
   map_option resolved_at (get_operation ''tok-1'' canceled_example) = Some None"
  by (simp add: create_sum_def fixed_token_def submitted_example_def canceled_example_def
        create_operation_def Let_def priv_set_operation_def priv_get_operation_def get_operation_def
        cancel_operation_def)

text \<open>
  C3 as stated asks for exactly one of \<^verbatim>\<open>result\<close> and \<^verbatim>\<open>error\<close> after any terminal
  transition. Cancelling is a terminal transition that stores neither: after creating an
  operation in session \<^verbatim>\<open>s1\<close> and cancelling that session's operations, the record is
  canceled and both fields are \<^verbatim>\<open>None\<close>.
\<close>

theorem canceled_record_has_no_payload:
  "run [create_sum, CancelSessionOperations ''s1''] [] = canceled_example \<and>
   fst (cancel_session_operations ''s1'' submitted_example) = 1 \<and>
   map_option status (get_operation ''tok-1'' canceled_example) = Some Canceled \<and>
   map_option result (get_operation ''tok-1'' canceled_example) = Some None \<and>
   map_option error (get_operation ''tok-1'' canceled_example) = Some None"
  by (simp add: create_sum_def fixed_token_def submitted_example_def canceled_example_def
        create_operation_def Let_def priv_set_operation_def priv_get_operation_def get_operation_def
        cancel_session_operations_def is_terminal_def)

text \<open>
  C3, amended. In every dictionary that a history of calls produces from the empty one,
  a record carries its payload according to its status: none while it is submitted,
  working or waiting for input (no terminal transition yet); the result and no error
  once completed; the error and no result once failed; neither once canceled. No record
  has the status unknown.
\<close>

theorem payload_by_status:
  assumes "run cs [] = ops" and "get_operation tok ops = Some operation"
  shows "(status operation \<in> {Submitted, Working, InputRequired} \<longrightarrow>
            result operation = None \<and> error operation = None) \<and>
         (status operation = Completed \<longrightarrow> result operation \<noteq> None \<and> error operation = None) \<and>
         (status operation = Failed \<longrightarrow> result operation = None \<and> error operation \<noteq> None) \<and>
         (status operation = Canceled \<longrightarrow> result operation = None \<and> error operation = None) \<and>
         status operation \<noteq> Unknown"
proof -
  from assms(1) have "well_formed ops" by (rule run_reachable_well_formed)
  with assms(2) have "consistent operation"
    by (auto simp: get_operation_def priv_get_operation_def dest: well_formed_lookup)
  then show ?thesis
    by (cases "status operation") (simp_all add: consistent_def)
qed

theorem payload_by_status_witness:
  "run scenario [] = completed_example \<and>
   (\<exists>operation. get_operation ''tok-1'' completed_example = Some operation \<and>
      status operation = Completed \<and> result operation = Some [(''total'', 3)] \<and>
      error operation = None)"
proof -
  have found: "get_operation ''tok-1'' completed_example = Some (snd (hd completed_example))"
    by (simp add: get_operation_def priv_get_operation_def completed_example_def)
  from payload_by_status [OF run_scenario found] run_scenario found
  show ?thesis by (simp add: completed_example_def)
qed

text \<open>
  C4. From a record whose status is submitted or working, \<^verbatim>\<open>complete_operation\<close>
  returns \<^verbatim>\<open>True\<close> and leaves under the token the same record with status completed,
  the given result and the current time as resolution time; \<^verbatim>\<open>fail_operation\<close>
  returns \<^verbatim>\<open>True\<close> and leaves the record with status failed, the given error and the
  current time as resolution time. Records under other tokens stay as they were.
\<close>

theorem complete_and_fail_from_active:
  assumes "get_operation tok ops = Some operation"
    and "status operation \<in> {Submitted, Working}"
  shows "fst (complete_operation tok res now ops) = True \<and>
         get_operation tok (snd (complete_operation tok res now ops)) =
           Some (operation\<lparr>status := Completed, result := Some res, resolved_at := Some now\<rparr>) \<and>
         (\<forall>tok'. tok' \<noteq> tok \<longrightarrow>
            get_operation tok' (snd (complete_operation tok res now ops)) = get_operation tok' ops) \<and>
         fst (fail_operation tok err now ops) = True \<and>
         get_operation tok (snd (fail_operation tok err now ops)) =
           Some (operation\<lparr>status := Failed, error := Some err, resolved_at := Some now\<rparr>) \<and>
         (\<forall>tok'. tok' \<noteq> tok \<longrightarrow>
            get_operation tok' (snd (fail_operation tok err now ops)) = get_operation tok' ops)"
  using assms
  by (auto simp: get_operation_def priv_get_operation_def complete_operation_def
        fail_operation_def update_conv')

theorem complete_and_fail_from_active_witness:
  "complete_operation ''tok-1'' [(''total'', 3)] 101 working_example = (True, completed_example) \<and>
   map_option status (get_operation ''tok-1''
      (snd (fail_operation ''tok-1'' ''boom'' 101 working_example))) = Some Failed \<and>
   map_option error (get_operation ''tok-1''
      (snd (fail_operation ''tok-1'' ''boom'' 101 working_example))) = Some (Some ''boom'') \<and>
   map_option resolved_at (get_operation ''tok-1''
      (snd (fail_operation ''tok-1'' ''boom'' 101 working_example))) = Some (Some 101)"
proof -
  have found: "get_operation ''tok-1'' working_example = Some (snd (hd working_example))"
    by (simp add: get_operation_def priv_get_operation_def working_example_def)
  have active: "status (snd (hd working_example)) \<in> {Submitted, Working}"
    by (simp add: working_example_def)
  have "complete_operation ''tok-1'' [(''total'', 3)] 101 working_example = (True, completed_example)"
    by (simp add: complete_operation_def priv_get_operation_def working_example_def
          completed_example_def)
  with complete_and_fail_from_active [OF found active, of "[(''total'', 3)]" 101 "''boom''" ]
  show ?thesis by (simp add: working_example_def)
qed

text \<open>
  C5. For every dictionary and every token, \<^verbatim>\<open>get_operation_result\<close> returns
  \<^verbatim>\<open>None\<close> when the token has no record and when the status of its record is anything
  but completed, failed included, whatever the record holds; for a completed record it
  returns the stored result. The dictionary after the call is the dictionary before
  it. In every dictionary that a history of calls produces, a completed record holds
  a result, so that there the value returned is other than \<^verbatim>\<open>None\<close> exactly when the
  token has a record whose status is completed.
\<close>

theorem result_only_when_completed:
  "fst (get_operation_result tok ops) =
     (case get_operation tok ops of
        None \<Rightarrow> None
      | Some operation \<Rightarrow> if status operation = Completed then result operation else None) \<and>
   snd (get_operation_result tok ops) = ops \<and>
   (run cs [] = ops \<longrightarrow>
      (fst (get_operation_result tok ops) \<noteq> None \<longleftrightarrow>
         (\<exists>operation. get_operation tok ops = Some operation \<and> status operation = Completed)))"
proof -
  have gate: "fst (get_operation_result tok ops) =
     (case get_operation tok ops of
        None \<Rightarrow> None
      | Some operation \<Rightarrow> if status operation = Completed then result operation else None)"
    by (simp add: get_operation_result_def get_operation_def priv_get_operation_def
          split: option.splits)
  have same: "snd (get_operation_result tok ops) = ops"
    by (simp add: get_operation_result_def split: option.splits)
  have "fst (get_operation_result tok ops) \<noteq> None \<longleftrightarrow>
         (\<exists>operation. get_operation tok ops = Some operation \<and> status operation = Completed)"
    if reached: "run cs [] = ops"
  proof (cases "map_of ops tok")
    case None
    then show ?thesis
      by (simp add: gate get_operation_def priv_get_operation_def)
  next
    case (Some operation)
    from reached have "well_formed ops" by (rule run_reachable_well_formed)
    then have "consistent operation" using Some by (rule well_formed_lookup)
    then have "status operation = Completed \<Longrightarrow> result operation \<noteq> None"
      by (simp add: consistent_def)
    with Some show ?thesis
      by (auto simp: gate get_operation_def priv_get_operation_def)
  qed
  with gate same show ?thesis by blast
qed

theorem result_only_when_completed_witness:
  "run scenario [] = completed_example \<and>
   get_operation_result ''tok-1'' completed_example = (Some [(''total'', 3)], completed_example) \<and>
   get_operation_result ''nope'' completed_example = (None, completed_example) \<and>
   map_option status (get_operation ''tok-1'' stray_result_example) = Some Failed \<and>
   map_option result (get_operation ''tok-1'' stray_result_example) = Some (Some [(''total'', 3)]) \<and>
   get_operation_result ''tok-1'' stray_result_example = (None, stray_result_example) \<and>
   map_option status (get_operation ''tok-2'' stray_result_example) = Some Working \<and>
   map_option result (get_operation ''tok-2'' stray_result_example) = Some (Some [(''total'', 4)]) \<and>
   get_operation_result ''tok-2'' stray_result_example = (None, stray_result_example)"
proof -
  have completed: "get_operation ''tok-1'' completed_example = Some (snd (hd completed_example))"
    and unknown: "get_operation ''nope'' completed_example = None"
    by (simp_all add: get_operation_def priv_get_operation_def completed_example_def)
  have failed: "get_operation ''tok-1'' stray_result_example = Some (snd (hd stray_result_example))"
    and working: "get_operation ''tok-2'' stray_result_example = Some (snd (last stray_result_example))"
    by (simp_all add: get_operation_def priv_get_operation_def stray_result_example_def)
  note at_completed =
    result_only_when_completed [of "''tok-1''" completed_example scenario, unfolded completed]
  note at_unknown =
    result_only_when_completed [of "''nope''" completed_example scenario, unfolded unknown]
  note at_failed =
    result_only_when_completed [of "''tok-1''" stray_result_example scenario, unfolded failed]
  note at_working =
    result_only_when_completed [of "''tok-2''" stray_result_example scenario, unfolded working]
  have "get_operation_result ''tok-1'' completed_example = (Some [(''total'', 3)], completed_example)"
    using at_completed run_scenario by (simp add: prod_eq_iff completed_example_def)
  moreover have "get_operation_result ''nope'' completed_example = (None, completed_example)"
    using at_unknown by (simp add: prod_eq_iff)
  moreover have "get_operation_result ''tok-1'' stray_result_example = (None, stray_result_example)"
    using at_failed by (simp add: prod_eq_iff stray_result_example_def)
  moreover have "get_operation_result ''tok-2'' stray_result_example = (None, stray_result_example)"
    using at_working by (simp add: prod_eq_iff stray_result_example_def)
  ultimately show ?thesis
    using run_scenario
    by (simp add: failed working) (simp add: stray_result_example_def)
qed

text \<open>
  C6 as stated speaks of the records expired at the time of the call. The scan reads
  the clock anew for every resolved record. With two completed records of the same
  deadline \<open>108\<close> and a clock that reads \<open>108\<close> for the first and \<open>109\<close> for the second,
  the call removes the second record alone and returns \<open>1\<close>: at \<open>108\<close> neither record is
  expired, at \<open>109\<close> both are, and at no time is one of them expired without the other
  (lemma \<open>two_due_same_deadline\<close>).
\<close>

theorem cleanup_expired_clock_advances:
  "ticking 108 0 = 108 \<and> ticking 108 1 = 109 \<and>
   is_expired 108 (snd (hd two_due_example)) = False \<and>
   is_expired 108 (snd (last two_due_example)) = False \<and>
   is_expired 109 (snd (hd two_due_example)) = True \<and>
   is_expired 109 (snd (last two_due_example)) = True \<and>
   cleanup_expired (ticking 108) two_due_example = (Inr 1, [hd two_due_example])"
  by (simp add: ticking_def two_due_example_def is_expired_def cleanup_expired_def
        is_expired_reading_def float_convertible_def priv_remove_operation_def)

text \<open>
  C6, amended. Take a dictionary (its keys distinct, as in any dict). If every record
  that the scan asks the clock about (a record with a resolution time and a status
  among completed, failed and canceled) has a keep-alive that converts to a float, one
  call of \<^verbatim>\<open>cleanup_expired\<close> removes exactly the entries whose record is expired at
  the clock reading the scan takes for it (one reading for each such record, in
  dictionary order), leaves every other entry as it was and in the same order, and
  returns the number of entries removed; \<^verbatim>\<open>cleanup_expired_operations\<close> raises no
  \<^verbatim>\<open>KeyError\<close> and has the same outcome; and when the clock reads the same time \<open>now\<close>
  throughout the call, the entries removed are exactly those whose record is expired
  at \<open>now\<close>. If some such record has a keep-alive too large for a float, both methods
  raise \<^verbatim>\<open>OverflowError\<close> and remove nothing.
\<close>

theorem cleanup_expired_removes_expired_at_reading:
  assumes "distinct (map fst ops)"
  shows "((\<forall>(tok, operation) \<in> set ops.
             reads_clock operation \<longrightarrow> float_convertible (keep_alive operation)) \<longrightarrow>
          snd (cleanup_expired clock ops) =
            filter (\<lambda>(tok, operation).
                      \<not> is_expired (clock (reading_for ops tok)) operation) ops \<and>
          fst (cleanup_expired clock ops) =
            Inr (length (filter (\<lambda>(tok, operation).
                           is_expired (clock (reading_for ops tok)) operation) ops)) \<and>
          (\<forall>tok. get_operation tok (snd (cleanup_expired clock ops)) =
             (case get_operation tok ops of
                None \<Rightarrow> None
              | Some operation \<Rightarrow>
                  if is_expired (clock (reading_for ops tok)) operation then None
                  else Some operation)) \<and>
          cleanup_expired_operations clock ops = cleanup_expired clock ops \<and>
          ((\<forall>i. clock i = now) \<longrightarrow>
             snd (cleanup_expired clock ops) =
               filter (\<lambda>(tok, operation). \<not> is_expired now operation) ops \<and>
             fst (cleanup_expired clock ops) =
               Inr (length (filter (\<lambda>(tok, operation). is_expired now operation) ops)))) \<and>
         ((\<exists>(tok, operation) \<in> set ops.
             reads_clock operation \<and> \<not> float_convertible (keep_alive operation)) \<longrightarrow>
          cleanup_expired clock ops = (Inl OverflowError, ops) \<and>
          cleanup_expired_operations clock ops = (Inl OverflowError, ops))"
proof (intro conjI impI)
  assume "\<exists>(tok, operation) \<in> set ops.
            reads_clock operation \<and> \<not> float_convertible (keep_alive operation)"
  then obtain tok operation where bad: "(tok, operation) \<in> set ops" "reads_clock operation"
      "\<not> float_convertible (keep_alive operation)"
    by auto
  from cleanup_expired_overflow [OF bad]
  show "cleanup_expired clock ops = (Inl OverflowError, ops)"
    and "cleanup_expired_operations clock ops = (Inl OverflowError, ops)"
    by simp_all
next
  assume fits: "\<forall>(tok, operation) \<in> set ops.
      reads_clock operation \<longrightarrow> float_convertible (keep_alive operation)"
  note all = cleanup_expired_at_reading [OF assms fits, of clock]
  from all show "snd (cleanup_expired clock ops) =
      filter (\<lambda>(tok, operation). \<not> is_expired (clock (reading_for ops tok)) operation) ops"
    by blast
  from all show "fst (cleanup_expired clock ops) =
      Inr (length (filter (\<lambda>(tok, operation).
                     is_expired (clock (reading_for ops tok)) operation) ops))"
    by blast
  from all show "\<forall>tok. get_operation tok (snd (cleanup_expired clock ops)) =
      (case get_operation tok ops of
         None \<Rightarrow> None
       | Some operation \<Rightarrow>
           if is_expired (clock (reading_for ops tok)) operation then None
           else Some operation)"
    by blast
  from all show "cleanup_expired_operations clock ops = cleanup_expired clock ops"
    by blast
  assume still: "\<forall>i. clock i = now"
  from cleanup_expired_at_reading [OF assms fits, of clock now] still
  show "snd (cleanup_expired clock ops) =
      filter (\<lambda>(tok, operation). \<not> is_expired now operation) ops"
    and "fst (cleanup_expired clock ops) =
      Inr (length (filter (\<lambda>(tok, operation). is_expired now operation) ops))"
    by blast+
qed

theorem cleanup_expired_removes_expired_at_reading_witness:
  "distinct (map fst mixed_example) \<and>
   map (\<lambda>(tok, operation). float_convertible (keep_alive operation)) mixed_example =
     [True, True, True, True] \<and>
   map (\<lambda>(tok, operation). is_expired 107 operation) mixed_example = [True, False, False, False] \<and>
   cleanup_expired (steady 107) mixed_example = (Inr 1, tl mixed_example) \<and>
   cleanup_expired_operations (steady 107) mixed_example = (Inr 1, tl mixed_example) \<and>
   map fst (tl mixed_example) = [''tok-2'', ''tok-3'', ''tok-4''] \<and>
   map (reading_for two_due_example) [''tok-1'', ''tok-2''] = [0, 1] \<and>
   snd (cleanup_expired_operations (ticking 108) two_due_example) = [hd two_due_example] \<and>
   map (\<lambda>(tok, operation). reads_clock operation \<and> \<not> float_convertible (keep_alive operation))
     huge_keep_alive_example = [False, True] \<and>
   cleanup_expired (steady 107) huge_keep_alive_example =
     (Inl OverflowError, huge_keep_alive_example) \<and>
   cleanup_expired_operations (steady 107) huge_keep_alive_example =
     (Inl OverflowError, huge_keep_alive_example)"
proof -
  have keys: "distinct (map fst mixed_example)"
    by (simp add: mixed_example_def)
  have small: "map (\<lambda>(tok, operation). float_convertible (keep_alive operation)) mixed_example =
      [True, True, True, True]"
    by (simp add: mixed_example_def small_float_convertible)
  then have fits: "\<forall>(tok, operation) \<in> set mixed_example.
      reads_clock operation \<longrightarrow> float_convertible (keep_alive operation)"
    by (simp add: mixed_example_def)
  have flags: "map (\<lambda>(tok, operation). is_expired 107 operation) mixed_example =
      [True, False, False, False]"
    by (simp add: mixed_example_def is_expired_def)
  have rest: "filter (\<lambda>(tok, operation). \<not> is_expired 107 operation) mixed_example =
      tl mixed_example"
    by (simp add: mixed_example_def is_expired_def)
  have gone: "length (filter (\<lambda>(tok, operation). is_expired 107 operation) mixed_example) = 1"
    by (simp add: mixed_example_def is_expired_def)
  have names: "map fst (tl mixed_example) = [''tok-2'', ''tok-3'', ''tok-4'']"
    by (simp add: mixed_example_def)
  have still: "\<forall>i. steady 107 i = 107" by (simp add: steady_def)
  from cleanup_expired_removes_expired_at_reading [OF keys, of "steady 107" 107] fits still
  have one: "cleanup_expired (steady 107) mixed_example = (Inr 1, tl mixed_example)"
    and two: "cleanup_expired_operations (steady 107) mixed_example = (Inr 1, tl mixed_example)"
    by (simp_all add: prod_eq_iff rest gone)
  have keys2: "distinct (map fst two_due_example)"
    by (simp add: two_due_example_def)
  have fits2: "\<forall>(tok, operation) \<in> set two_due_example.
      reads_clock operation \<longrightarrow> float_convertible (keep_alive operation)"
    by (simp add: two_due_example_def small_float_convertible)
  have order: "map (reading_for two_due_example) [''tok-1'', ''tok-2''] = [0, 1]"
    by (simp add: reading_for_def two_due_example_def reads_clock_def)
  have "filter (\<lambda>(tok, operation).
          \<not> is_expired (ticking 108 (reading_for two_due_example tok)) operation) two_due_example =
        [hd two_due_example]"
    by (simp add: reading_for_def two_due_example_def reads_clock_def ticking_def is_expired_def)
  with cleanup_expired_removes_expired_at_reading [OF keys2, of "ticking 108" 0] fits2
  have three: "snd (cleanup_expired_operations (ticking 108) two_due_example) = [hd two_due_example]"
    by simp
  have keys3: "distinct (map fst huge_keep_alive_example)"
    by (simp add: huge_keep_alive_example_def)
  have large: "map (\<lambda>(tok, operation).
        reads_clock operation \<and> \<not> float_convertible (keep_alive operation))
      huge_keep_alive_example = [False, True]"
    by (simp add: huge_keep_alive_example_def reads_clock_def float_convertible_def)
  then have bad: "\<exists>(tok, operation) \<in> set huge_keep_alive_example.
      reads_clock operation \<and> \<not> float_convertible (keep_alive operation)"
    by (simp add: huge_keep_alive_example_def)
  from cleanup_expired_removes_expired_at_reading [OF keys3, of "steady 107" 107] bad
  have four: "cleanup_expired (steady 107) huge_keep_alive_example =
      (Inl OverflowError, huge_keep_alive_example)"
    and five: "cleanup_expired_operations (steady 107) huge_keep_alive_example =
      (Inl OverflowError, huge_keep_alive_example)"
    by blast+
  from keys small flags one two names order three large four five show ?thesis by blast
qed

text \<open>
  C7. \<^verbatim>\<open>cancel_session_operations\<close> for a session id sets the status to canceled in
  exactly the records of that session whose status is none of completed, failed,
  canceled and unknown, changing no other field; every other record, whether of another
  session or already terminal, is left as it is, and so is the set of tokens. The
  number returned counts the records changed: the non-terminal ones among those that
  \<^verbatim>\<open>get_session_operations\<close> lists.
\<close>

theorem cancel_session_operations_effect:
  "fst (cancel_session_operations sid ops) =
     length (filter (\<lambda>(tok, operation). session_id operation = Some sid \<and>
               status operation \<notin> {Completed, Failed, Canceled, Unknown}) ops) \<and>
   fst (cancel_session_operations sid ops) =
     length (filter (\<lambda>operation. \<not> is_terminal operation) (get_session_operations sid ops)) \<and>
   map fst (snd (cancel_session_operations sid ops)) = map fst ops \<and>
   (\<forall>tok. get_operation tok (snd (cancel_session_operations sid ops)) =
      map_option
        (\<lambda>operation.
           if session_id operation = Some sid \<and>
              status operation \<notin> {Completed, Failed, Canceled, Unknown}
           then operation\<lparr>status := Canceled\<rparr> else operation)
        (get_operation tok ops))"
proof -
  have count: "fst (cancel_session_operations sid ops) =
     length (filter (\<lambda>(tok, operation). session_id operation = Some sid \<and>
               status operation \<notin> {Completed, Failed, Canceled, Unknown}) ops)"
    by (simp add: cancel_session_operations_def cancel_session_loop_eq is_terminal_def)
  have "length (filter (\<lambda>(tok, operation). session_id operation = Some sid \<and>
               status operation \<notin> {Completed, Failed, Canceled, Unknown}) ops) =
     length (filter (\<lambda>operation. \<not> is_terminal operation) (get_session_operations sid ops))"
    by (induction ops) (auto simp: get_session_operations_def is_terminal_def)
  with count have count': "fst (cancel_session_operations sid ops) =
     length (filter (\<lambda>operation. \<not> is_terminal operation) (get_session_operations sid ops))"
    by simp
  have keys: "map fst (snd (cancel_session_operations sid ops)) = map fst ops"
    unfolding cancel_session_operations_def cancel_session_loop_eq
    by (induction ops) auto
  have lookup: "get_operation tok (snd (cancel_session_operations sid ops)) =
      map_option
        (\<lambda>operation.
           if session_id operation = Some sid \<and>
              status operation \<notin> {Completed, Failed, Canceled, Unknown}
           then operation\<lparr>status := Canceled\<rparr> else operation)
        (get_operation tok ops)" for tok
    unfolding cancel_session_operations_def cancel_session_loop_eq get_operation_def
      priv_get_operation_def snd_conv map_of_map_value
    by (simp add: is_terminal_def)
  from count count' keys lookup show ?thesis by blast
qed

theorem cancel_session_operations_effect_witness:
  "fst (cancel_session_operations ''s1'' mixed_example) = 1 \<and>
   map (\<lambda>(tok, operation). status operation) (snd (cancel_session_operations ''s1'' mixed_example)) =
     [Completed, Failed, Working, Canceled] \<and>
   take 3 (snd (cancel_session_operations ''s1'' mixed_example)) = take 3 mixed_example \<and>
   get_operation ''tok-4'' (snd (cancel_session_operations ''s1'' mixed_example)) =
     Some (snd (mixed_example ! 3)\<lparr>status := Canceled\<rparr>)"
proof -
  have "map_option
        (\<lambda>operation.
           if session_id operation = Some ''s1'' \<and>
              status operation \<notin> {Completed, Failed, Canceled, Unknown}
           then operation\<lparr>status := Canceled\<rparr> else operation)
        (get_operation ''tok-4'' mixed_example) = Some (snd (mixed_example ! 3)\<lparr>status := Canceled\<rparr>)"
    by (simp add: get_operation_def priv_get_operation_def mixed_example_def)
  moreover have "map (\<lambda>(tok, operation). status operation)
       (snd (cancel_session_operations ''s1'' mixed_example)) = [Completed, Failed, Working, Canceled]"
    and "take 3 (snd (cancel_session_operations ''s1'' mixed_example)) = take 3 mixed_example"
    by (simp_all add: cancel_session_operations_def mixed_example_def is_terminal_def)
  moreover have "length (filter (\<lambda>(tok, operation). session_id operation = Some ''s1'' \<and>
               status operation \<notin> {Completed, Failed, Canceled, Unknown}) mixed_example) = 1"
    by (simp add: mixed_example_def)
  ultimately show ?thesis
    using cancel_session_operations_effect [of "''s1''" mixed_example] by simp
qed

text \<open>
  C8 says that a completed record with resolution time \<open>T\<close> and keep-alive \<open>K\<close> is
  expired at every time after \<open>T + K\<close>. For \<open>T = 0\<close> the guard
  \<^verbatim>\<open>if not self.resolved_at\<close> takes the record for unresolved: with \<open>K = 5\<close> the
  record is not expired at time \<open>10\<close>. For every other \<open>T\<close> the property is as
  claimed (lemma \<open>is_expired_resolved\<close>).
\<close>

theorem epoch_resolved_record_not_expired:
  "status epoch_record = Completed \<and> resolved_at epoch_record = Some 0 \<and>
   keep_alive epoch_record = 5 \<and> (10::real) > 0 + real_of_int 5 \<and>
   is_expired 10 epoch_record = False"
  by (simp add: epoch_record_def is_expired_def)

text \<open>
  C9. Take a dictionary produced by a history of calls and a successful
  \<^verbatim>\<open>cancel_operation\<close> on one of its tokens. The record then has status canceled and
  no resolution time, so \<^verbatim>\<open>is_expired\<close> is false for it at every time. Whatever calls
  follow, with whatever clock readings and whether they return or raise, as long as
  none removes the token explicitly or creates a new operation under it, the token
  keeps exactly this record: no transition applies to it any more, and neither purge
  method, whatever the clock reads, takes it out.
\<close>

theorem canceled_record_never_expires:
  assumes reached: "run cs0 [] = ops0"
    and canceled: "cancel_operation tok ops0 = (True, ops1)"
    and later: "\<forall>c \<in> set cs. \<not> discards tok c"
  shows "\<exists>operation ops'.
           get_operation tok ops1 = Some operation \<and>
           status operation = Canceled \<and> resolved_at operation = None \<and>
           (\<forall>now. \<not> is_expired now operation) \<and>
           run cs ops1 = ops' \<and>
           get_operation tok ops' = Some operation \<and>
           (\<forall>clock. get_operation tok (snd (cleanup_expired clock ops')) = Some operation) \<and>
           (\<forall>clock. get_operation tok (snd (cleanup_expired_operations clock ops')) =
              Some operation)"
proof -
  from reached have wf0: "well_formed ops0" by (rule run_reachable_well_formed)
  from canceled obtain before where
    before: "map_of ops0 tok = Some before" "status before \<in> {Submitted, Working}"
    and ops1: "ops1 = AList.update tok (before\<lparr>status := Canceled\<rparr>) ops0"
    by (auto simp: cancel_operation_def priv_get_operation_def split: option.splits if_splits)
  define operation where "operation = before\<lparr>status := Canceled\<rparr>"
  from well_formed_lookup(2) [OF wf0 before(1)] before(2)
  have unresolved: "resolved_at operation = None"
    by (auto simp: operation_def consistent_def)
  have status: "status operation = Canceled" by (simp add: operation_def)
  from well_formed_cancel [OF wf0, of tok] canceled have wf1: "well_formed ops1" by simp
  have found: "map_of ops1 tok = Some operation"
    by (simp add: ops1 operation_def update_conv')
  define ops' where "ops' = run cs ops1"
  from run_keeps_canceled [OF wf1 found status unresolved later]
  have wf': "well_formed ops'" and found': "map_of ops' tok = Some operation"
    by (simp_all add: ops'_def)
  have g1: "get_operation tok ops1 = Some operation"
    using found by (simp add: get_operation_def priv_get_operation_def)
  have g2: "get_operation tok ops' = Some operation"
    using found' by (simp add: get_operation_def priv_get_operation_def)
  have g3: "\<forall>now. \<not> is_expired now operation"
    using unresolved by (simp add: unresolved_not_expired)
  have g4: "\<forall>clock. get_operation tok (snd (cleanup_expired clock ops')) = Some operation"
    using exec_keeps_canceled [OF wf' found' status unresolved, of "CleanupExpired clock" for clock]
    by (simp add: get_operation_def priv_get_operation_def)
  have g5: "\<forall>clock. get_operation tok (snd (cleanup_expired_operations clock ops')) = Some operation"
    using exec_keeps_canceled
      [OF wf' found' status unresolved, of "CleanupExpiredOperations clock" for clock]
    by (simp add: get_operation_def priv_get_operation_def)
  from g1 status unresolved g3 g2 g4 g5 ops'_def show ?thesis by blast
qed

theorem canceled_record_never_expires_witness:
  "run [create_sum] [] = submitted_example \<and>
   cancel_operation ''tok-1'' submitted_example = (True, canceled_example) \<and>
   map (discards ''tok-1'') later_calls = [False, False, False, False, False] \<and>
   run later_calls canceled_example = canceled_example \<and>
   (\<exists>operation. get_operation ''tok-1'' canceled_example = Some operation \<and>
      (\<forall>now. \<not> is_expired now operation) \<and>
      (\<forall>clock. get_operation ''tok-1'' (snd (cleanup_expired clock canceled_example)) =
         Some operation))"
proof -
  have reached: "run [create_sum] [] = submitted_example"
    by (simp add: create_sum_def fixed_token_def submitted_example_def create_operation_def
          Let_def priv_set_operation_def)
  have canceled: "cancel_operation ''tok-1'' submitted_example = (True, canceled_example)"
    by (simp add: cancel_operation_def priv_get_operation_def submitted_example_def
          canceled_example_def)
  have flags: "map (discards ''tok-1'') later_calls = [False, False, False, False, False]"
    by (simp add: later_calls_def)
  then have later: "\<forall>c \<in> set later_calls. \<not> discards ''tok-1'' c"
    by (simp add: later_calls_def)
  have run: "run later_calls canceled_example = canceled_example"
    by (simp add: later_calls_def canceled_example_def cleanup_expired_def
          cleanup_expired_operations_def is_expired_reading_def
          mark_working_def complete_operation_def priv_get_operation_def
          cancel_session_operations_def is_terminal_def)
  from canceled_record_never_expires [OF reached canceled later] run
  have "\<exists>operation. get_operation ''tok-1'' canceled_example = Some operation \<and>
      (\<forall>now. \<not> is_expired now operation) \<and>
      (\<forall>clock. get_operation ''tok-1'' (snd (cleanup_expired clock canceled_example)) =
         Some operation)"
    by auto
  with reached canceled flags run show ?thesis by blast
qed

text \<open>
  C10. \<^verbatim>\<open>create_operation\<close> does not look whether the generated token is in use.
  When the generator delivers a token that already has a record, the call puts the new
  record, submitted and without result, error or resolution time, in its place: the
  token now yields the new record, the dictionary has the same tokens as before and no
  further entry, the records of the other tokens are as they were, and the old record
  is no longer stored under any token (unless the new record equals it field by
  field), so that \<^verbatim>\<open>get_operation_result\<close> for the token returns \<^verbatim>\<open>None\<close> whatever
  result the old record held.
\<close>

theorem create_operation_overwrites:
  assumes "keyed ops" and "get_operation (gen sid) ops = Some old"
  shows "snd (create_operation gen now tname args ka sid ops) =
           AList.update (gen sid) (fst (create_operation gen now tname args ka sid ops)) ops \<and>
         fst (create_operation gen now tname args ka sid ops) =
           \<lparr>token = gen sid, tool_name = tname, arguments = args, status = Submitted,
            created_at = now, keep_alive = ka, resolved_at = None, session_id = sid,
            result = None, error = None\<rparr> \<and>
         get_operation (gen sid) (snd (create_operation gen now tname args ka sid ops)) =
           Some (fst (create_operation gen now tname args ka sid ops)) \<and>
         map fst (snd (create_operation gen now tname args ka sid ops)) = map fst ops \<and>
         (\<forall>tok. tok \<noteq> gen sid \<longrightarrow>
            get_operation tok (snd (create_operation gen now tname args ka sid ops)) =
            get_operation tok ops) \<and>
         (old \<noteq> fst (create_operation gen now tname args ka sid ops) \<longrightarrow>
            old \<notin> snd ` set (snd (create_operation gen now tname args ka sid ops))) \<and>
         fst (get_operation_result (gen sid)
                (snd (create_operation gen now tname args ka sid ops))) = None"
proof -
  define new :: "('a, 'b) ServerAsyncOperation" where
    "new = \<lparr>token = gen sid, tool_name = tname, arguments = args, status = Submitted,
            created_at = now, keep_alive = ka, resolved_at = None, session_id = sid,
            result = None, error = None\<rparr>"
  have created: "create_operation gen now tname args ka sid ops =
      (new, AList.update (gen sid) new ops)"
    by (simp add: create_operation_def Let_def priv_set_operation_def new_def)
  from assms(1) have keys: "distinct (map fst ops)" by (simp add: keyed_def)
  from assms(2) have old: "map_of ops (gen sid) = Some old"
    by (simp add: get_operation_def priv_get_operation_def)
  then have present: "(gen sid, old) \<in> set ops" by (rule map_of_SomeD)
  then have "gen sid \<in> set (map fst ops)" by force
  then have same_keys: "map fst (AList.update (gen sid) new ops) = map fst ops"
    by (simp add: update_keys)
  have lookup: "get_operation (gen sid) (AList.update (gen sid) new ops) = Some new"
    by (simp add: get_operation_def priv_get_operation_def update_conv')
  have others: "get_operation tok (AList.update (gen sid) new ops) = get_operation tok ops"
    if "tok \<noteq> gen sid" for tok
    using that by (simp add: get_operation_def priv_get_operation_def update_conv')
  have gone: "old \<notin> snd ` set (AList.update (gen sid) new ops)" if "old \<noteq> new"
  proof
    assume "old \<in> snd ` set (AList.update (gen sid) new ops)"
    then obtain k where k: "(k, old) \<in> set (AList.update (gen sid) new ops)" by force
    show False
    proof (cases "k = gen sid")
      case True
      with k update_same_key [OF keys, of "gen sid" old new] that show False by simp
    next
      case False
      with k set_update_subset [of "gen sid" new ops] have "(k, old) \<in> set ops" by auto
      with assms(1) have "token old = k" by (auto simp: keyed_def)
      moreover from present assms(1) have "token old = gen sid" by (auto simp: keyed_def)
      ultimately show False using False by simp
    qed
  qed
  have no_result: "fst (get_operation_result (gen sid) (AList.update (gen sid) new ops)) = None"
    by (simp add: get_operation_result_def priv_get_operation_def update_conv' new_def)
  from same_keys lookup others gone no_result show ?thesis
    unfolding created fst_conv snd_conv new_def [symmetric] by blast
qed

theorem create_operation_overwrites_witness:
  "keyed completed_example \<and>
   map_option result (get_operation ''tok-1'' completed_example) = Some (Some [(''total'', 3)]) \<and>
   snd (create_operation (fixed_token ''tok-1'') 100 ''sum'' [(''a'', 1), (''b'', 2)] 5 (Some ''s1'')
          completed_example) = submitted_example \<and>
   get_operation_result ''tok-1'' submitted_example = (None, submitted_example) \<and>
   snd (hd completed_example) \<notin> snd ` set submitted_example"
proof -
  have keyed: "keyed completed_example"
    by (simp add: keyed_def completed_example_def)
  have found: "get_operation (fixed_token ''tok-1'' (Some ''s1'')) completed_example =
      Some (snd (hd completed_example))"
    by (simp add: get_operation_def priv_get_operation_def completed_example_def fixed_token_def)
  have created: "create_operation (fixed_token ''tok-1'') 100 ''sum'' [(''a'', 1), (''b'', 2)] 5
      (Some ''s1'') completed_example = (snd (hd submitted_example), submitted_example)"
    by (simp add: create_operation_def Let_def priv_set_operation_def fixed_token_def
          completed_example_def submitted_example_def)
  have differ: "snd (hd completed_example) \<noteq> snd (hd submitted_example)"
    by (simp add: completed_example_def submitted_example_def)
  have stored: "map_option result (get_operation ''tok-1'' completed_example) =
      Some (Some [(''total'', 3)])"
    by (simp add: get_operation_def priv_get_operation_def completed_example_def)
  have none: "get_operation_result ''tok-1'' submitted_example = (None, submitted_example)"
    by (simp add: get_operation_result_def priv_get_operation_def submitted_example_def)
  from create_operation_overwrites
    [where gen = "fixed_token ''tok-1''" and sid = "Some ''s1''" and ops = completed_example
       and old = "snd (hd completed_example)" and now = 100 and tname = "''sum''"
       and args = "[(''a'', 1), (''b'', 2)]" and ka = 5, OF keyed found]
  have "snd (hd completed_example) \<notin> snd ` set submitted_example"
    unfolding created fst_conv snd_conv using differ by blast
  with keyed stored created none show ?thesis by simp
qed

end
